theory Spec2Isabelle
  imports Main "HOL-Library.Sublist"
begin

section \<open>Strings and the digit pattern\<close>

text \<open>
  A Python \<open>str\<close> is modelled as a \<open>string\<close> (a list of characters); \<open>len\<close> is
  \<open>length\<close>, slicing \<open>s[:i]\<close> is \<open>take i s\<close> and \<open>s[i:]\<close> is \<open>drop i s\<close>. Python's
  unbounded \<open>int\<close> is \<open>int\<close>.

  The module constant is
  \<^verbatim>\<open>DIGITS = re.compile(r'[^0123456789]*([0123456789]+).*')\<close>
  and it is only ever used through \<open>DIGITS.match\<close>, which anchors the pattern at the start
  of the string and does not require it to reach the end. The first factor greedily takes
  every leading character that is not one of the ten ASCII digits, the group then greedily
  takes every following digit, and the last factor can always match the empty string.
  Giving back characters of the first factor never helps: the character that would then
  have to start the group is not a digit. So the match exists exactly when a digit follows
  the leading non-digits, and group 1 is the first maximal run of digits.
  \<open>DIGITS_match\<close> returns \<open>(match.start(1), match.end(1))\<close>, or \<open>None\<close> as Python does.

  \<open>DIGITS_backtracking\<close> is the search as the regular expression engine makes it: the
  first factor takes as many characters as it can and then one fewer at a time; for each
  of these the group takes as many digits as it can and then one fewer at a time, but at
  least one; the first attempt is the match, since the last factor always succeeds. The
  two are proved equal below.
\<close>

definition is_digit :: "char \<Rightarrow> bool" where
  "is_digit c \<longleftrightarrow> c \<in> set ''0123456789''"

definition DIGITS_match :: "string \<Rightarrow> (nat \<times> nat) option" where
  "DIGITS_match s =
     (let left = length (takeWhile (\<lambda>c. \<not> is_digit c) s);
          number = takeWhile is_digit (drop left s)
      in if number = [] then None else Some (left, left + length number))"

definition DIGITS_backtracking :: "string \<Rightarrow> (nat \<times> nat) option" where
  "DIGITS_backtracking s =
     (let longest = length (takeWhile (\<lambda>c. \<not> is_digit c) s);
          attempts =
            [(k, m). k \<leftarrow> rev [0..<Suc longest],
                     m \<leftarrow> rev [1..<Suc (length (takeWhile is_digit (drop k s)))]]
      in case attempts of [] \<Rightarrow> None | (k, m) # _ \<Rightarrow> Some (k, k + m))"

section \<open>The padding algorithm\<close>

text \<open>
  \<^verbatim>\<open>
  def add_padding(string, padding):
      match = DIGITS.match(string)
      if match is None:
          return string
      left = match.start(1)
      right = match.end(1)
      left_part = string[:left]
      right_part = string[right:]
      body = match.groups()[0]
      delta = padding - len(body)
      new_filename = left_part + '0' * delta + body + right_part
      return new_filename
  \<close>
  In Python \<open>'0' * delta\<close> is the empty string when \<open>delta\<close> is zero or negative, which is
  what \<open>replicate (nat delta)\<close> gives.
\<close>

definition add_padding :: "string \<Rightarrow> int \<Rightarrow> string" where
  "add_padding string padding =
     (case DIGITS_match string of
        None \<Rightarrow> string
      | Some (left, right) \<Rightarrow>
          (let left_part = take left string;
               right_part = drop right string;
               body = take (right - left) (drop left string);
               delta = padding - int (length body);
               new_filename = left_part @ replicate (nat delta) CHR ''0'' @ body @ right_part
           in new_filename))"

text \<open>
  \<^verbatim>\<open>
  def calculate_padding(names):
      padding = 0
      for name in names:
          match = DIGITS.match(name)
          if match:
              number = match.groups()[0]
              padding = max(padding, len(number))
      return padding
  \<close>
  The loop is a recursion over the list with the running maximum as accumulator.
\<close>

fun calculate_padding_loop :: "int \<Rightarrow> string list \<Rightarrow> int" where
  "calculate_padding_loop padding [] = padding"
| "calculate_padding_loop padding (name # names) =
     (case DIGITS_match name of
        None \<Rightarrow> calculate_padding_loop padding names
      | Some (left, right) \<Rightarrow>
          (let number = take (right - left) (drop left name)
           in calculate_padding_loop (max padding (int (length number))) names))"

definition calculate_padding :: "string list \<Rightarrow> int" where
  "calculate_padding names = calculate_padding_loop 0 names"

section \<open>String methods used by the program\<close>

text \<open>
  \<open>s.replace(old, new)\<close> replaces every occurrence of \<open>old\<close> in \<open>s\<close>, found from left to
  right and not overlapping. With an empty \<open>old\<close> Python inserts \<open>new\<close> before every
  character and once more at the end.
\<close>

function str_replace :: "string \<Rightarrow> string \<Rightarrow> string \<Rightarrow> string" where
  "str_replace [] old new = (if old = [] then new else [])"
| "str_replace (c # cs) old new =
     (if old = [] then new @ c # str_replace cs old new
      else if prefix old (c # cs) then new @ str_replace (drop (length old) (c # cs)) old new
      else c # str_replace cs old new)"
  by pat_completeness auto
termination
  by (relation "measure (\<lambda>(s, old, new). length s)") (auto simp: neq_Nil_conv)

text \<open>
  \<open>s.split(sep)\<close> with a separator of one character: the pieces between the separators,
  one more than there are separators (so \<open>''.split('=') == ['']\<close>).
\<close>

fun str_split :: "string \<Rightarrow> char \<Rightarrow> string list" where
  "str_split [] sep = [[]]"
| "str_split (c # cs) sep =
     (if c = sep then [] # str_split cs sep
      else (let parts = str_split cs sep in (c # hd parts) # tl parts))"

text \<open>
  \<open>s.strip(chars)\<close> removes from both ends every character that is in \<open>chars\<close>, until
  one that is not.
\<close>

definition str_strip :: "string \<Rightarrow> string \<Rightarrow> string" where
  "str_strip s chars =
     rev (dropWhile (\<lambda>c. c \<in> set chars) (rev (dropWhile (\<lambda>c. c \<in> set chars) s)))"

text \<open>
  A \<open>dict\<close> keeps its keys in insertion order; \<open>d[key] = value\<close> replaces the value of a
  key that is present, where it stands, and appends a new key at the end. \<open>d.items()\<close>
  is then the list itself.
\<close>

type_synonym ('k, 'v) dict = "('k \<times> 'v) list"

fun dict_setitem :: "('k, 'v) dict \<Rightarrow> 'k \<Rightarrow> 'v \<Rightarrow> ('k, 'v) dict" where
  "dict_setitem [] key val = [(key, val)]"
| "dict_setitem ((k, v) # d) key val =
     (if k = key then (k, val) # d else (k, v) # dict_setitem d key val)"

section \<open>File\<close>

text \<open>
  \<^verbatim>\<open>
  class File:
      def __init__(self, path, filename):
          self.path = path
          self.filename = filename
          self.old_filename = filename
          self.new_filename = filename
  \<close>
  A \<open>Path\<close> is kept as the string it was built from.
\<close>

record File =
  path :: string
  filename :: string
  old_filename :: string
  new_filename :: string

definition File_init :: "string \<Rightarrow> string \<Rightarrow> File" where
  "File_init p fname = \<lparr>path = p, filename = fname, old_filename = fname, new_filename = fname\<rparr>"

text \<open>
  \<^verbatim>\<open>
  def get_new_filename(self, padding, replace):
      new_filename = add_padding(self.old_filename, padding)
      for source, target in replace.items():
          new_filename = new_filename.replace(source, target)
      return new_filename
  \<close>
\<close>

fun get_new_filename_loop :: "string \<Rightarrow> (string, string) dict \<Rightarrow> string" where
  "get_new_filename_loop new_name [] = new_name"
| "get_new_filename_loop new_name ((source, target) # items) =
     get_new_filename_loop (str_replace new_name source target) items"

definition get_new_filename :: "File \<Rightarrow> int \<Rightarrow> (string, string) dict \<Rightarrow> string" where
  "get_new_filename self padding replace =
     get_new_filename_loop (add_padding (old_filename self) padding) replace"

section \<open>Errors\<close>

text \<open>
  Every way the program can stop early is a value: the \<open>IndexError\<close> of \<open>[0]\<close> on an empty
  list, \<open>sys.exit(code)\<close> as \<open>SystemExit code\<close>, and what a failing rename of the operating
  system raises.
\<close>

datatype error = IndexError | SystemExit int | FileNotFoundError | OSError

section \<open>Path names\<close>

text \<open>
  \<open>Path(filename).suffix\<close> and \<open>.stem\<close> are those of \<open>pathlib\<close> (POSIX flavour, as in
  CPython 3.8 to 3.13): the name is the last component of the path that is neither empty
  nor \<open>.\<close>, and
  \<^verbatim>\<open>
      i = name.rfind('.')
      if 0 < i < len(name) - 1: return name[i:]      # stem: name[:i]
      else: return ''                                # stem: name
  \<close>
  \<open>str_rfind\<close> returns \<open>None\<close> where Python's \<open>rfind\<close> returns \<open>-1\<close>.
\<close>

definition path_name :: "string \<Rightarrow> string" where
  "path_name p =
     (case filter (\<lambda>part. part \<noteq> [] \<and> part \<noteq> ''.'') (str_split p CHR ''/'') of
        [] \<Rightarrow> []
      | parts \<Rightarrow> last parts)"

definition str_rfind :: "string \<Rightarrow> char \<Rightarrow> nat option" where
  "str_rfind s c =
     (if c \<in> set s then Some (length s - 1 - length (takeWhile (\<lambda>x. x \<noteq> c) (rev s)))
      else None)"

definition path_suffix :: "string \<Rightarrow> string" where
  "path_suffix p =
     (let nm = path_name p in
      case str_rfind nm CHR ''.'' of
        None \<Rightarrow> []
      | Some i \<Rightarrow> if 0 < i \<and> i + 1 < length nm then drop i nm else [])"

definition path_stem :: "string \<Rightarrow> string" where
  "path_stem p =
     (let nm = path_name p in
      case str_rfind nm CHR ''.'' of
        None \<Rightarrow> nm
      | Some i \<Rightarrow> if 0 < i \<and> i + 1 < length nm then take i nm else nm)"

section \<open>File: derived properties and renaming\<close>

text \<open>
  \<^verbatim>\<open>
  @cached_property
  def name(self):
      return Path(self.filename).stem

  @cached_property
  def ext(self):
      suffix = Path(self.filename).suffix
      if suffix.startswith('.'):
          return suffix[1:]
      return suffix
  \<close>
  Both depend on \<open>filename\<close> only, which no method assigns after construction, so the
  cache never holds anything but what the function computes.
\<close>

definition name :: "File \<Rightarrow> string" where
  "name self = path_stem (filename self)"

definition ext :: "File \<Rightarrow> string" where
  "ext self =
     (let suffix = path_suffix (filename self) in
      if prefix ''.'' suffix then drop 1 suffix else suffix)"


definition ascii_casefold :: "string \<Rightarrow> string" where
  "ascii_casefold s =
     map (\<lambda>c. case map_of (zip ''ABCDEFGHIJKLMNOPQRSTUVWXYZ'' ''abcdefghijklmnopqrstuvwxyz'') c of
                None \<Rightarrow> c
              | Some l \<Rightarrow> l) s"

text \<open>
  \<^verbatim>\<open>
  def rename_to_pattern(self, padding, replace):
      new_filename = self.get_new_filename(padding, replace)
      if new_filename != self.old_filename:
          self.new_filename = new_filename
          (self.path / self.old_filename).rename(self.path / self.new_filename)
          return True
      return False
  \<close>
  The method changes the object and the file system, so the model takes both and returns
  both, next to the returned value or the error. The path \<open>self.path / name\<close> is the pair
  of the directory and the name. \<open>Path.rename\<close> belongs to the operating system: it is the
  parameter \<open>os_rename\<close>, which maps a file system, a source and a destination to the
  changed file system or to the error it raises. The assignment to \<open>new_filename\<close> comes
  before the call, so it stays when the call raises.
\<close>

type_synonym 'fs os_rename = "'fs \<Rightarrow> string \<times> string \<Rightarrow> string \<times> string \<Rightarrow> error + 'fs"

definition rename_to_pattern ::
  "'fs os_rename \<Rightarrow> File \<Rightarrow> int \<Rightarrow> (string, string) dict \<Rightarrow> 'fs \<Rightarrow> (error + bool) \<times> File \<times> 'fs" where
  "rename_to_pattern os_rename self padding replace fs =
     (let new_name = get_new_filename self padding replace in
      if new_name \<noteq> old_filename self then
        (let self' = self\<lparr>new_filename := new_name\<rparr> in
         case os_rename fs (path self', old_filename self') (path self', new_filename self') of
           Inl e \<Rightarrow> (Inl e, self', fs)
         | Inr fs' \<Rightarrow> (Inr True, self', fs'))
      else (Inr False, self, fs))"

text \<open>
  A file system for concrete runs: the set of the (directory, name) pairs that exist.
  Renaming a missing source raises \<open>FileNotFoundError\<close>; otherwise the source is gone and
  the destination exists (POSIX replaces an existing destination).
\<close>

definition simple_rename :: "(string \<times> string) set os_rename" where
  "simple_rename fs src dst =
     (if src \<in> fs then Inr (insert dst (fs - {src})) else Inl FileNotFoundError)"

section \<open>Folder\<close>

text \<open>
  \<^verbatim>\<open>
  class Folder:
      def __init__(self, path):
          self.path = path
          self.files: List[File] = []
  \<close>
  The field \<open>path\<close> of the folder is \<open>folder_path\<close> here, \<open>path\<close> being the field of \<open>File\<close>.
\<close>

record Folder =
  folder_path :: string
  files :: "File list"

text \<open>
  \<open>Counter(iterable)\<close> counts with \<open>mapping[elem] = mapping.get(elem, 0) + 1\<close>, so its keys
  stand in the order in which they were first met. \<open>most_common(1)\<close> is
  \<open>heapq.nlargest(1, self.items(), key=itemgetter(1))\<close>, which for one element is
  \<open>max(items, key=...)\<close>: the first item whose count no other exceeds, in a list of one
  element, or the empty list for an empty counter.
\<close>

definition dict_get :: "('k, 'v) dict \<Rightarrow> 'k \<Rightarrow> 'v \<Rightarrow> 'v" where
  "dict_get d key dflt = (case map_of d key of None \<Rightarrow> dflt | Some v \<Rightarrow> v)"

fun Counter_update :: "('a, nat) dict \<Rightarrow> 'a list \<Rightarrow> ('a, nat) dict" where
  "Counter_update mapping [] = mapping"
| "Counter_update mapping (elem # iterable) =
     Counter_update (dict_setitem mapping elem (dict_get mapping elem 0 + 1)) iterable"

definition Counter :: "'a list \<Rightarrow> ('a, nat) dict" where
  "Counter iterable = Counter_update [] iterable"

fun max_key :: "('a \<Rightarrow> nat) \<Rightarrow> 'a \<Rightarrow> 'a list \<Rightarrow> 'a" where
  "max_key key best [] = best"
| "max_key key best (x # xs) = max_key key (if key best < key x then x else best) xs"

definition most_common_1 :: "('a, nat) dict \<Rightarrow> ('a \<times> nat) list" where
  "most_common_1 counter =
     (case counter of [] \<Rightarrow> [] | item # items \<Rightarrow> [max_key snd item items])"

text \<open>
  \<^verbatim>\<open>
  @cached_property
  def majority(self):
      extensions = [file.ext.casefold() for file in self.files if file.ext.casefold()]
      counter = Counter(extensions)
      return counter.most_common(1)[0][0]

  @cached_property
  def padding(self):
      names = [file.name for file in self.files]
      return calculate_padding(names)
  \<close>
  \<open>[0]\<close> on the empty list raises \<open>IndexError\<close>.
\<close>

definition majority :: "(string \<Rightarrow> string) \<Rightarrow> Folder \<Rightarrow> error + string" where
  "majority casefold self =
     (let extensions = [casefold (ext file). file \<leftarrow> files self, casefold (ext file) \<noteq> []];
          counter = Counter extensions
      in case most_common_1 counter of
           [] \<Rightarrow> Inl IndexError
         | item # _ \<Rightarrow> Inr (fst item))"

definition padding :: "Folder \<Rightarrow> int" where
  "padding self = (let names = [name file. file \<leftarrow> files self] in calculate_padding names)"

section \<open>The argument parser\<close>

text \<open>
  \<^verbatim>\<open>
  parser = argparse.ArgumentParser(description=...)
  parser.add_argument('--path', type=str, dest='path', default=None, help=...)
  parser.add_argument('--replace', type=str, action='append', dest='replace',
                      default=None, help=...)
  args = parser.parse_args(args)
  \<close>
  The namespace has the two attributes \<open>path\<close> and \<open>replace\<close>, here \<open>args_path\<close> and
  \<open>args_replace\<close>, both \<open>None\<close> unless their option is given.
\<close>

record Namespace =
  args_path :: "string option"
  args_replace :: "string list option"

text \<open>
  \<open>parse_args\<close> is the work of the library \<open>argparse\<close>, followed here as CPython 3.11 has
  it, for this parser: the option strings are \<open>-h\<close> and \<open>--help\<close>, which \<open>argparse\<close> adds
  itself, \<open>--path\<close> and \<open>--replace\<close>; there is no positional argument. A usage error ends
  the process with status 2, the help with status 0; what \<open>argparse\<close> prints is left out.

  An option tuple is the action, the option string, the separator and the explicit
  argument found in one argument string.
\<close>

datatype action = help_action | path_action | replace_action

definition option_string_actions :: "(string \<times> action) list" where
  "option_string_actions =
     [(''-h'', help_action), (''--help'', help_action),
      (''--path'', path_action), (''--replace'', replace_action)]"

datatype option_tuple = Option_tuple "action option" string "string option" "string option"

text \<open>\<open>s.partition(sep)\<close>: the parts before and after the first separator, and the separator.\<close>

definition str_partition :: "string \<Rightarrow> char \<Rightarrow> string \<times> string \<times> string" where
  "str_partition s sep =
     (if sep \<in> set s
      then (takeWhile (\<lambda>c. c \<noteq> sep) s, [sep], drop 1 (dropWhile (\<lambda>c. c \<noteq> sep) s))
      else (s, [], []))"

text \<open>
  \<open>_get_option_tuples\<close>: an argument string starting with two dashes matches every option
  string that starts with its part before \<open>=\<close> (abbreviations are allowed); one starting
  with a single dash matches the option string equal to its first two characters, the
  rest being the explicit argument, and every option string it is a prefix of.
\<close>

definition get_option_tuples :: "string \<Rightarrow> option_tuple list" where
  "get_option_tuples option_string =
     (if option_string ! 1 = CHR ''-'' then
        (case str_partition option_string CHR ''='' of
           (option_prefix, sep, explicit_arg) \<Rightarrow>
             [Option_tuple (Some act) opt
                (if sep = [] then None else Some sep) (if sep = [] then None else Some explicit_arg).
              (opt, act) \<leftarrow> option_string_actions, prefix option_prefix opt])
      else
        concat (map (\<lambda>(opt, act).
            if opt = take 2 option_string
            then [Option_tuple (Some act) opt (Some []) (Some (drop 2 option_string))]
            else if prefix option_string opt then [Option_tuple (Some act) opt None None]
            else [])
          option_string_actions))"

text \<open>
  The pattern \<^verbatim>\<open>^-\d+$|^-\d*\.\d+$\<close> of negative numbers, on ASCII digits; \<open>$\<close> also
  matches before a final newline.
\<close>

definition negative_number_matcher :: "string \<Rightarrow> bool" where
  "negative_number_matcher s =
     (let line = (if s \<noteq> [] \<and> last s = CHR 0x0A then butlast s else s) in
      case line of
        [] \<Rightarrow> False
      | c # r \<Rightarrow>
          c = CHR ''-'' \<and>
          ((r \<noteq> [] \<and> list_all is_digit r) \<or>
           (case dropWhile is_digit r of
              [] \<Rightarrow> False
            | d # frac \<Rightarrow> d = CHR ''.'' \<and> frac \<noteq> [] \<and> list_all is_digit frac)))"

text \<open>
  \<open>_parse_optional\<close>: \<open>None\<close> for an argument string that is a positional argument, the
  option tuple for one that is an option (with no action when the option is unknown), and
  the usage error for an ambiguous abbreviation.
\<close>

definition parse_optional :: "string \<Rightarrow> error + option_tuple option" where
  "parse_optional arg_string =
     (if arg_string = [] then Inr None
      else if hd arg_string \<noteq> CHR ''-'' then Inr None
      else case map_of option_string_actions arg_string of
        Some act \<Rightarrow> Inr (Some (Option_tuple (Some act) arg_string None None))
      | None \<Rightarrow>
          if length arg_string = 1 then Inr None
          else case str_partition arg_string CHR ''='' of (option_string, sep, explicit_arg) \<Rightarrow>
            (case (if sep \<noteq> [] then map_of option_string_actions option_string else None) of
               Some act \<Rightarrow> Inr (Some (Option_tuple (Some act) option_string (Some sep) (Some explicit_arg)))
             | None \<Rightarrow>
                 (case get_option_tuples arg_string of
                    [option_tuple] \<Rightarrow> Inr (Some option_tuple)
                  | _ # _ # _ \<Rightarrow> Inl (SystemExit 2)
                  | [] \<Rightarrow>
                      if negative_number_matcher arg_string then Inr None
                      else if CHR '' '' \<in> set arg_string then Inr None
                      else Inr (Some (Option_tuple None arg_string None None)))))"

text \<open>
  The pattern of the argument strings: \<open>Arg\<close> for an argument, \<open>Opt\<close> for an option with its
  tuple, \<open>Dashes\<close> for \<open>--\<close>, after which everything is an argument.
\<close>

datatype arg_pattern = Arg | Opt option_tuple | Dashes

fun arg_strings_pattern :: "string list \<Rightarrow> error + (string \<times> arg_pattern) list" where
  "arg_strings_pattern [] = Inr []"
| "arg_strings_pattern (arg_string # arg_strings) =
     (if arg_string = ''--'' then Inr ((arg_string, Dashes) # map (\<lambda>s. (s, Arg)) arg_strings)
      else case parse_optional arg_string of
        Inl e \<Rightarrow> Inl e
      | Inr option_tuple \<Rightarrow>
          (case arg_strings_pattern arg_strings of
             Inl e \<Rightarrow> Inl e
           | Inr rest \<Rightarrow>
               Inr ((arg_string, case option_tuple of None \<Rightarrow> Arg | Some t \<Rightarrow> Opt t) # rest)))"

text \<open>
  \<open>-h\<close> followed by more characters in one argument string: they are read as further
  single-dash options. A dash or, after a further \<open>h\<close>, an equals sign is a usage error;
  otherwise the help action runs.
\<close>

fun stacked_help :: "string \<Rightarrow> error" where
  "stacked_help [] = SystemExit 0"
| "stacked_help (c # explicit_arg) =
     (if c = CHR ''-'' then SystemExit 2
      else if c = CHR ''h'' then
        (if explicit_arg = [] then SystemExit 0
         else if hd explicit_arg = CHR ''='' then SystemExit 2
         else stacked_help explicit_arg)
      else SystemExit 0)"

definition take_action :: "action \<Rightarrow> string \<Rightarrow> Namespace \<Rightarrow> Namespace" where
  "take_action act val namespace =
     (case act of
        path_action \<Rightarrow> namespace\<lparr>args_path := Some val\<rparr>
      | replace_action \<Rightarrow>
          namespace\<lparr>args_replace :=
            Some ((case args_replace namespace of None \<Rightarrow> [] | Some items \<Rightarrow> items) @ [val])\<rparr>
      | help_action \<Rightarrow> namespace)"

text \<open>
  The options are consumed from left to right. An argument that no option takes, an
  unknown option and \<open>--\<close> are extras, and extras are a usage error once all argument
  strings have been read. \<open>--path\<close> and \<open>--replace\<close> take their explicit argument, or else
  the next argument string, which must be an argument. The help action ends the process.
\<close>

fun consume :: "Namespace \<Rightarrow> string list \<Rightarrow> (string \<times> arg_pattern) list \<Rightarrow> error + Namespace" where
  "consume namespace extras [] = (if extras = [] then Inr namespace else Inl (SystemExit 2))"
| "consume namespace extras ((arg_string, Arg) # rest) = consume namespace (extras @ [arg_string]) rest"
| "consume namespace extras ((arg_string, Dashes) # rest) = consume namespace (extras @ [arg_string]) rest"
| "consume namespace extras ((arg_string, Opt (Option_tuple None option_string sep explicit_arg)) # rest) =
     consume namespace (extras @ [arg_string]) rest"
| "consume namespace extras ((arg_string, Opt (Option_tuple (Some help_action) option_string sep explicit_arg)) # rest) =
     (case explicit_arg of
        None \<Rightarrow> Inl (SystemExit 0)
      | Some e \<Rightarrow>
          if option_string ! 1 \<noteq> CHR ''-'' \<and> e \<noteq> [] then
            (if sep \<noteq> Some [] then Inl (SystemExit 2) else Inl (stacked_help e))
          else Inl (SystemExit 2))"
| "consume namespace extras ((arg_string, Opt (Option_tuple (Some act) option_string sep explicit_arg)) # rest) =
     (case explicit_arg of
        Some e \<Rightarrow> consume (take_action act e namespace) extras rest
      | None \<Rightarrow>
          (case rest of
             (val, Arg) # rest' \<Rightarrow> consume (take_action act val namespace) extras rest'
           | _ \<Rightarrow> Inl (SystemExit 2)))"

definition parse_args :: "string list \<Rightarrow> error + Namespace" where
  "parse_args args =
     (case arg_strings_pattern args of
        Inl e \<Rightarrow> Inl e
      | Inr pattern \<Rightarrow> consume \<lparr>args_path = None, args_replace = None\<rparr> [] pattern)"

section \<open>Configuration\<close>

text \<open>
  \<^verbatim>\<open>
  replace: Dict[str, str] = {}
  if args.replace is not None:
      for each in args.replace:
          parts = each.split('=')
          if len(parts) != 2:
              print('Replace argument expects values like: '
                    f'--replace source=target, but got {each!r}')
              sys.exit(1)
          key, value = parts
          key = key.strip("'").strip('"')
          value = value.strip("'").strip('"')
          replace[key] = value
  \<close>
  The loop returns the dictionary, or the value it stopped at.
\<close>

fun get_config_loop :: "(string, string) dict \<Rightarrow> string list \<Rightarrow> string + (string, string) dict" where
  "get_config_loop replace [] = Inr replace"
| "get_config_loop replace (each # rest) =
     (let parts = str_split each CHR ''='' in
      if length parts \<noteq> 2 then Inl each
      else
        (let key = parts ! 0;
             value = parts ! 1;
             key = str_strip (str_strip key [CHR 0x27]) [CHR 0x22];
             value = str_strip (str_strip value [CHR 0x27]) [CHR 0x22]
         in get_config_loop (dict_setitem replace key value) rest))"

text \<open>
  \<^verbatim>\<open>
  class Config(NamedTuple):
      cwd: Path
      replace: Dict[str, str]
  \<close>
\<close>

record Config =
  cwd :: string
  replace :: "(string, string) dict"

text \<open>
  \<^verbatim>\<open>
  def get_config(*args):
      ...
      args = parser.parse_args(args)
      if args.path is not None:
          path = Path(args.path)
      else:
          path = Path(os.getcwd())
      if not path.exists():
          print(f'Directory does not exist: {path.absolute()}')
          sys.exit(1)
      replace = ...
      return Config(cwd=path, replace=replace)
  \<close>
  What the function reads of the operating system is the current directory and which
  paths exist. Its result is what it printed and either the exit or the configuration; a
  printed line is given by its kind and the value it shows.
\<close>

record os =
  getcwd :: string
  path_exists :: "string \<Rightarrow> bool"

datatype diagnostic = Directory_does_not_exist string | Replace_argument_expects string

definition get_config :: "os \<Rightarrow> string list \<Rightarrow> diagnostic list \<times> (error + Config)" where
  "get_config os args =
     (case parse_args args of
        Inl e \<Rightarrow> ([], Inl e)
      | Inr args \<Rightarrow>
          (let p = (case args_path args of Some p \<Rightarrow> p | None \<Rightarrow> getcwd os) in
           if \<not> path_exists os p then ([Directory_does_not_exist p], Inl (SystemExit 1))
           else
             (case (case args_replace args of
                      None \<Rightarrow> Inr []
                    | Some values \<Rightarrow> get_config_loop [] values) of
                Inl each \<Rightarrow> ([Replace_argument_expects each], Inl (SystemExit 1))
              | Inr replace' \<Rightarrow> ([], Inr \<lparr>cwd = p, replace = replace'\<rparr>))))"

text \<open>An operating system for concrete runs: the current directory is \<open>d\<close>, the only path that exists.\<close>

definition example_os :: os where
  "example_os = \<lparr>getcwd = ''d'', path_exists = (\<lambda>p. p = ''d'')\<rparr>"

section \<open>The run\<close>




text \<open>
  The words of the specification, for comparison with the code: a name has a digit run
  when one of its characters is a digit, and its first maximal digit run is what follows
  the leading non-digits, as far as digits go.
\<close>

definition has_digit :: "string \<Rightarrow> bool" where
  "has_digit nm \<longleftrightarrow> list_ex is_digit nm"

definition first_digit_run :: "string \<Rightarrow> string" where
  "first_digit_run nm = takeWhile is_digit (dropWhile (\<lambda>c. \<not> is_digit c) nm)"


text \<open>
  The extensions the majority is taken over, in scan order, and the position at which a
  value is first met in a list.
\<close>

definition folded_extensions :: "(string \<Rightarrow> string) \<Rightarrow> Folder \<Rightarrow> string list" where
  "folded_extensions casefold folder =
     filter (\<lambda>e. e \<noteq> []) (map (\<lambda>file. casefold (ext file)) (files folder))"

definition first_index :: "'a list \<Rightarrow> 'a \<Rightarrow> nat" where
  "first_index xs x = length (takeWhile (\<lambda>y. y \<noteq> x) xs)"


text \<open>
  The run in the words of the specification. The current name of a file is the name as
  of its latest rename, the field \<open>new_filename\<close>; its original name is the field
  \<open>old_filename\<close>, and after a scan the two are the same. A file is renamed when its
  extension is non-empty, equals the majority extension up to case, and its new name
  differs from its original name. Renaming and reporting a list of files takes them in
  order: the file system renames the file from its original name to its new name, and
  then one line, a tab and \<open>Renamed old to new\<close>, is reported; a rename that fails ends
  the run there. The effect of a run is how it ended, the file system and the reported
  lines.
\<close>

definition current_name :: "File \<Rightarrow> string" where
  "current_name file = new_filename file"





text \<open>
  Configuration parsing in the words of the specification: the resolved path is the path
  argument or else the current directory; the replace values are those given, none when
  the flag is absent; a value is malformed when it does not hold exactly one \<open>=\<close>; the
  quotes of a part are stripped by removing every single quote at its two ends and then
  every double quote at its two ends.
\<close>

definition resolved_path :: "os \<Rightarrow> Namespace \<Rightarrow> string" where
  "resolved_path os namespace = (case args_path namespace of Some p \<Rightarrow> p | None \<Rightarrow> getcwd os)"

definition replace_values :: "Namespace \<Rightarrow> string list" where
  "replace_values namespace = (case args_replace namespace of None \<Rightarrow> [] | Some values \<Rightarrow> values)"

definition malformed :: "string \<Rightarrow> bool" where
  "malformed each \<longleftrightarrow> count_list each CHR ''='' \<noteq> 1"

definition strip_quotes :: "string \<Rightarrow> string" where
  "strip_quotes part = str_strip (str_strip part [CHR 0x27]) [CHR 0x22]"

section \<open>Facts about the digit pattern\<close>

lemma drop_takeWhile_length: "drop (length (takeWhile P xs)) xs = dropWhile P xs"
  by (induction xs) auto

lemma DIGITS_match_None: "DIGITS_match s = None \<longleftrightarrow> \<not> has_digit s"
proof -
  have "takeWhile is_digit (dropWhile (\<lambda>c. \<not> is_digit c) s) = [] \<longleftrightarrow> (\<forall>c\<in>set s. \<not> is_digit c)"
    by (induction s) auto
  then show ?thesis
    by (simp add: DIGITS_match_def Let_def drop_takeWhile_length has_digit_def list_ex_iff)
qed

lemma no_digit_run_before:
  assumes "k < length (takeWhile (\<lambda>c. \<not> is_digit c) s)"
  shows "takeWhile is_digit (drop k s) = []"
proof -
  from assms have "k < length s"
    using length_takeWhile_le [of "\<lambda>c. \<not> is_digit c" s] by simp
  moreover from assms have "\<not> is_digit (s ! k)"
    using nth_length_takeWhile takeWhile_nth nth_mem set_takeWhileD
    by (metis (mono_tags, lifting))
  ultimately show ?thesis
    by (simp add: Cons_nth_drop_Suc [symmetric])
qed

lemma DIGITS_match_backtracking: "DIGITS_match s = DIGITS_backtracking s"
proof -
  define K where "K = length (takeWhile (\<lambda>c. \<not> is_digit c) s)"
  define M where "M = length (takeWhile is_digit (drop K s))"
  define runs where "runs = (\<lambda>k. map (Pair k) (rev [1..<Suc (length (takeWhile is_digit (drop k s)))]))"
  have early: "concat (map runs (rev [0..<K])) = []"
    using no_digit_run_before [of _ s] by (simp add: K_def runs_def)
  have "rev [0..<Suc K] = K # rev [0..<K]" by simp
  then have "concat (map runs (rev [0..<Suc K])) = runs K"
    using early by (simp del: upt_Suc)
  then have att: "[(k, m). k \<leftarrow> rev [0..<Suc K],
      m \<leftarrow> rev [1..<Suc (length (takeWhile is_digit (drop k s)))]] = runs K"
    by (simp add: runs_def del: upt_Suc)
  have b: "DIGITS_backtracking s = (case runs K of [] \<Rightarrow> None | (k, m) # _ \<Rightarrow> Some (k, k + m))"
    unfolding DIGITS_backtracking_def Let_def K_def [symmetric] att ..
  have d: "DIGITS_match s = (if M = 0 then None else Some (K, K + M))"
    by (simp add: DIGITS_match_def Let_def K_def M_def)
  show ?thesis
  proof (cases M)
    case 0
    then have "runs K = []" by (simp add: runs_def M_def)
    with 0 show ?thesis by (simp add: b d)
  next
    case (Suc n)
    then have "runs K = (K, Suc n) # map (Pair K) (rev [1..<Suc n])"
      by (simp add: runs_def flip: M_def)
    with Suc show ?thesis by (simp add: b d)
  qed
qed

lemma DIGITS_match_decomp:
  assumes "\<forall>c\<in>set p. \<not> is_digit c" and "b \<noteq> []" and "\<forall>c\<in>set b. is_digit c"
    and "r = [] \<or> \<not> is_digit (hd r)"
  shows "DIGITS_match (p @ b @ r) = Some (length p, length p + length b)"
proof -
  from assms(2,3) have hb: "is_digit (hd b)" by (cases b) auto
  have tp: "takeWhile (\<lambda>c. \<not> is_digit c) (p @ b @ r) = p"
    using assms(1,2) hb by (cases b) (auto simp: takeWhile_append2)
  have tb: "takeWhile is_digit (b @ r) = b"
    using assms(3,4) by (cases r) (auto simp: takeWhile_append2)
  show ?thesis
    using assms(2) by (simp add: DIGITS_match_def Let_def tp tb)
qed

lemma DIGITS_match_Some:
  assumes "DIGITS_match s = Some (left, right)"
  shows "take (right - left) (drop left s) = first_digit_run s"
proof -
  have "right - left = length (takeWhile is_digit (dropWhile (\<lambda>c. \<not> is_digit c) s))"
    using assms
    by (auto simp: DIGITS_match_def Let_def drop_takeWhile_length split: if_splits)
  moreover have "drop left s = dropWhile (\<lambda>c. \<not> is_digit c) s"
    using assms
    by (auto simp: DIGITS_match_def Let_def drop_takeWhile_length split: if_splits)
  moreover have "take (length (takeWhile P xs)) xs = takeWhile P xs" for P and xs :: string
    by (induction xs) auto
  ultimately show ?thesis
    by (simp add: first_digit_run_def)
qed

lemma calculate_padding_loop_Max:
  "calculate_padding_loop pad nms =
     Max (insert pad ((\<lambda>nm. int (length (first_digit_run nm))) ` set (filter has_digit nms)))"
proof (induction nms arbitrary: pad)
  case Nil
  show ?case by simp
next
  case (Cons nm nms)
  let ?S = "(\<lambda>nm. int (length (first_digit_run nm))) ` set (filter has_digit nms)"
  have fin: "finite ?S" by simp
  show ?case
  proof (cases "DIGITS_match nm")
    case None
    then have "\<not> has_digit nm" by (simp add: DIGITS_match_None)
    with None Cons.IH show ?thesis by simp
  next
    case (Some lr)
    obtain left right where lr: "lr = (left, right)" by (cases lr)
    from Some have d: "has_digit nm" using DIGITS_match_None [of nm] by simp
    have n: "take (right - left) (drop left nm) = first_digit_run nm"
      using Some lr by (simp add: DIGITS_match_Some)
    have "calculate_padding_loop pad (nm # nms) =
        Max (insert (max pad (int (length (first_digit_run nm)))) ?S)"
      using Some lr Cons.IH by (simp add: n del: length_take)
    also have "\<dots> = Max (insert pad (insert (int (length (first_digit_run nm))) ?S))"
    proof (cases "?S = {}")
      case True
      then show ?thesis by simp
    next
      case False
      with fin show ?thesis by (simp add: max.assoc)
    qed
    finally show ?thesis using d by simp
  qed
qed

section \<open>Facts about the string methods\<close>

lemma prefix_append_short:
  "prefix xs (ys @ zs) \<Longrightarrow> length xs \<le> length ys \<Longrightarrow> prefix xs ys"
  by (auto simp: prefix_append)

lemma str_replace_no_occurrence:
  "old \<noteq> [] \<Longrightarrow> \<not> sublist old s \<Longrightarrow> str_replace s old new = s"
proof (induction s)
  case Nil
  then show ?case by simp
next
  case (Cons c cs)
  from Cons.prems(2) have "\<not> prefix old (c # cs)"
    using prefix_imp_sublist by blast
  moreover from Cons.prems(2) have "\<not> sublist old cs"
    by (auto simp: sublist_Cons_right)
  ultimately show ?case using Cons by simp
qed

lemma str_replace_first_occurrence:
  "old \<noteq> [] \<Longrightarrow> \<not> sublist old (u @ butlast old) \<Longrightarrow>
   str_replace (u @ old @ v) old new = u @ new @ str_replace v old new"
proof (induction u)
  case Nil
  then obtain a as where "old = a # as" by (cases old) auto
  then show ?case by simp
next
  case (Cons c u)
  have np: "\<not> prefix old (c # u @ old @ v)"
  proof
    assume p: "prefix old (c # u @ old @ v)"
    have "c # u @ old @ v = ((c # u) @ butlast old) @ (last old # v)"
      using Cons.prems(1) by simp
    with p have "prefix old (((c # u) @ butlast old) @ (last old # v))" by simp
    moreover have "length old \<le> length ((c # u) @ butlast old)" using Cons.prems(1) by (cases old) auto
    ultimately have "prefix old ((c # u) @ butlast old)"
      by (rule prefix_append_short)
    then show False using Cons.prems(2) prefix_imp_sublist by blast
  qed
  from Cons.prems(2) have "\<not> sublist old (u @ butlast old)"
    by (auto simp: sublist_Cons_right)
  with Cons show ?case using np by simp
qed

lemma str_replace_empty: "str_replace s [] new = concat (map (\<lambda>c. new @ [c]) s) @ new"
  by (induction s) auto

lemma get_new_filename_loop_snoc:
  "get_new_filename_loop s (items @ [(source, target)]) =
     str_replace (get_new_filename_loop s items) source target"
  by (induction s items rule: get_new_filename_loop.induct) auto

lemma get_new_filename_loop_foldl:
  "get_new_filename_loop s items =
     foldl (\<lambda>nm (source, target). str_replace nm source target) s items"
  by (induction s items rule: get_new_filename_loop.induct) auto

section \<open>Facts about the counter and the most common element\<close>

lemma dict_setitem_keys:
  "map fst (dict_setitem d k v) = (if k \<in> fst ` set d then map fst d else map fst d @ [k])"
  by (induction d k v rule: dict_setitem.induct) auto

lemma map_of_dict_setitem: "map_of (dict_setitem d k v) = (map_of d)(k \<mapsto> v)"
  by (induction d k v rule: dict_setitem.induct) auto

lemma Counter_update_snoc:
  "Counter_update d (xs @ [x]) =
     dict_setitem (Counter_update d xs) x (dict_get (Counter_update d xs) x 0 + 1)"
  by (induction d xs rule: Counter_update.induct) auto

lemma Counter_snoc:
  "Counter (xs @ [x]) = dict_setitem (Counter xs) x (dict_get (Counter xs) x 0 + 1)"
  by (simp add: Counter_def Counter_update_snoc)

lemma Counter_Nil: "Counter [] = []"
  by (simp add: Counter_def)

lemma map_of_Counter:
  "map_of (Counter xs) k = (if k \<in> set xs then Some (count_list xs k) else None)"
proof (induction xs rule: rev_induct)
  case Nil
  show ?case by (simp add: Counter_Nil)
next
  case (snoc x xs)
  then show ?case
    by (auto simp: Counter_snoc map_of_dict_setitem dict_get_def)
qed

lemma keys_Counter: "fst ` set (Counter xs) = set xs"
proof -
  have "dom (map_of (Counter xs)) = set xs"
    by (auto simp: map_of_Counter dom_def)
  then show ?thesis by (simp add: dom_map_of_conv_image_fst)
qed

lemma first_index_snoc: "k \<in> set xs \<Longrightarrow> first_index (xs @ [x]) k = first_index xs k"
  by (simp add: first_index_def takeWhile_append1)

lemma first_index_less: "k \<in> set xs \<Longrightarrow> first_index xs k < length xs"
  unfolding first_index_def by (induction xs) auto

lemma first_index_new: "x \<notin> set xs \<Longrightarrow> first_index (xs @ [x]) x = length xs"
  unfolding first_index_def by (induction xs) auto

lemma Counter_order:
  "distinct (map fst (Counter xs)) \<and>
   sorted_wrt (\<lambda>a b. first_index xs a < first_index xs b) (map fst (Counter xs))"
proof (induction xs rule: rev_induct)
  case Nil
  show ?case by (simp add: Counter_Nil)
next
  case (snoc x xs)
  have keys: "set (map fst (Counter xs)) = set xs"
    using keys_Counter [of xs] by simp
  have mono: "sorted_wrt (\<lambda>a b. first_index (xs @ [x]) a < first_index (xs @ [x]) b) (map fst (Counter xs))"
    using snoc keys
    by (auto simp: first_index_snoc elim!: sorted_wrt_mono_rel [rotated])
  show ?case
  proof (cases "x \<in> set xs")
    case True
    then have "map fst (Counter (xs @ [x])) = map fst (Counter xs)"
      using keys_Counter [of xs] by (simp add: Counter_snoc dict_setitem_keys)
    with snoc mono show ?thesis by simp
  next
    case False
    then have k: "map fst (Counter (xs @ [x])) = map fst (Counter xs) @ [x]"
      using keys_Counter [of xs] by (simp add: Counter_snoc dict_setitem_keys)
    have "\<forall>a\<in>set (map fst (Counter xs)). first_index (xs @ [x]) a < first_index (xs @ [x]) x"
      using False keys by (auto simp: first_index_snoc first_index_new first_index_less)
    with snoc mono False keys show ?thesis
      unfolding k by (auto simp: sorted_wrt_append)
  qed
qed

lemma max_key_split:
  "\<exists>P Q. best # xs = P @ max_key key best xs # Q \<and>
     (\<forall>x\<in>set P. key x < key (max_key key best xs)) \<and>
     (\<forall>x\<in>set Q. key x \<le> key (max_key key best xs))"
proof (induction xs arbitrary: best)
  case Nil
  have "[best] = [] @ max_key key best [] # [] \<and>
    (\<forall>x\<in>set []. key x < key (max_key key best [])) \<and>
    (\<forall>x\<in>set []. key x \<le> key (max_key key best []))" by simp
  then show ?case by blast
next
  case (Cons x xs)
  show ?case
  proof (cases "key best < key x")
    case True
    define r where "r = max_key key x xs"
    have mk: "max_key key best (x # xs) = r"
      using True by (simp add: r_def)
    from Cons [of x] obtain P Q where pq: "x # xs = P @ r # Q"
      "\<forall>y\<in>set P. key y < key r" "\<forall>y\<in>set Q. key y \<le> key r"
      unfolding r_def by blast
    have "key x \<le> key r"
    proof (cases P)
      case Nil
      with pq(1) show ?thesis by simp
    next
      case (Cons p P')
      with pq(1) have "x \<in> set P" by simp
      with pq(2) show ?thesis by auto
    qed
    with True have b: "key best < key r" by simp
    have "best # x # xs = (best # P) @ r # Q"
      using pq(1) by simp
    moreover have "\<forall>y\<in>set (best # P). key y < key r"
      using pq(2) b by simp
    ultimately show ?thesis
      unfolding mk using pq(3) by blast
  next
    case False
    define r where "r = max_key key best xs"
    have mk: "max_key key best (x # xs) = r"
      using False by (simp add: r_def)
    from Cons [of best] obtain P Q where pq: "best # xs = P @ r # Q"
      "\<forall>y\<in>set P. key y < key r" "\<forall>y\<in>set Q. key y \<le> key r"
      unfolding r_def by blast
    show ?thesis
    proof (cases P)
      case Nil
      with pq(1) have rb: "r = best" and q: "Q = xs" by simp_all
      have "best # x # xs = [] @ r # (x # Q)"
        using rb q by simp
      moreover have "\<forall>y\<in>set (x # Q). key y \<le> key r"
        using pq(3) False rb by auto
      ultimately show ?thesis
        unfolding mk by (metis empty_iff list.set(1))
    next
      case (Cons b P')
      with pq(1) have bb: "b = best" and xs: "xs = P' @ r # Q" by simp_all
      from Cons pq(2) bb have "key best < key r" by simp
      with False have "key x < key r" by simp
      then have "\<forall>y\<in>set (best # x # P'). key y < key r"
        using pq(2) Cons bb by simp
      moreover have "best # x # xs = (best # x # P') @ r # Q"
        using xs by simp
      ultimately show ?thesis
        unfolding mk using pq(3) by blast
    qed
  qed
qed

lemma majority_folded_extensions:
  "majority cf folder =
     (case most_common_1 (Counter (folded_extensions cf folder)) of
        [] \<Rightarrow> Inl IndexError
      | item # _ \<Rightarrow> Inr (fst item))"
proof -
  have "concat (map (\<lambda>file. if cf (ext file) \<noteq> [] then [cf (ext file)] else []) fs) =
      filter (\<lambda>e. e \<noteq> []) (map (\<lambda>file. cf (ext file)) fs)" for fs
    by (induction fs) auto
  then show ?thesis
    by (simp add: majority_def folded_extensions_def Let_def)
qed

lemma Counter_eq_Nil: "Counter xs = [] \<longleftrightarrow> xs = []"
  using keys_Counter [of xs] by (cases xs) auto

lemma majority_IndexError:
  "majority cf folder = Inl IndexError \<longleftrightarrow> folded_extensions cf folder = []"
  by (auto simp: majority_folded_extensions most_common_1_def Counter_eq_Nil Counter_Nil
      split: list.splits)

section \<open>Facts about the run\<close>




section \<open>Facts about configuration parsing\<close>

lemma length_str_split: "length (str_split s c) = Suc (count_list s c)"
  by (induction s) (auto simp: Let_def)

lemma str_split_no_sep: "c \<notin> set s \<Longrightarrow> str_split s c = [s]"
  by (induction s) (auto simp: Let_def)

lemma str_split_first: "c \<notin> set a \<Longrightarrow> str_split (a @ c # b) c = a # str_split b c"
  by (induction a) (auto simp: Let_def)

lemma str_split_pair: "c \<notin> set a \<Longrightarrow> c \<notin> set b \<Longrightarrow> str_split (a @ c # b) c = [a, b]"
  by (simp add: str_split_first str_split_no_sep)

lemma malformed_iff: "malformed each \<longleftrightarrow> length (str_split each CHR ''='') \<noteq> 2"
  by (simp add: malformed_def length_str_split)

lemma get_config_loop_Inl:
  "(\<exists>each. get_config_loop d vals = Inl each) \<longleftrightarrow> list_ex malformed vals"
  by (induction vals arbitrary: d) (auto simp: Let_def malformed_iff)

lemma get_config_loop_Inr:
  "(\<exists>d'. get_config_loop d vals = Inr d') \<longleftrightarrow> \<not> list_ex malformed vals"
  using get_config_loop_Inl [of d vals] by (cases "get_config_loop d vals") auto

lemma parse_optional_exit: "parse_optional s = Inl e \<Longrightarrow> e = SystemExit 2"
  by (auto simp: parse_optional_def split: if_splits option.splits prod.splits list.splits)

lemma arg_strings_pattern_exit: "arg_strings_pattern args = Inl e \<Longrightarrow> e = SystemExit 2"
  by (induction args arbitrary: e)
     (auto split: if_splits sum.splits dest: parse_optional_exit)

lemma stacked_help_exit: "stacked_help s = SystemExit 0 \<or> stacked_help s = SystemExit 2"
  by (induction s rule: stacked_help.induct) auto

lemma consume_exit:
  "consume namespace extras pattern = Inl e \<Longrightarrow> e = SystemExit 0 \<or> e = SystemExit 2"
proof (induction namespace extras pattern rule: consume.induct)
  case (5 namespace extras arg_string option_string sep explicit_arg rest)
  then show ?case
    using stacked_help_exit by (auto split: option.splits if_splits)
qed (auto split: option.splits if_splits list.splits arg_pattern.splits prod.splits)

lemma parse_args_exit: "parse_args args = Inl e \<Longrightarrow> e = SystemExit 0 \<or> e = SystemExit 2"
  by (auto simp: parse_args_def split: sum.splits dest: arg_strings_pattern_exit consume_exit)

lemma str_strip_layers:
  assumes "set l \<subseteq> {q}" and "set r \<subseteq> {q}" and "core = [] \<or> (hd core \<noteq> q \<and> last core \<noteq> q)"
  shows "str_strip (l @ core @ r) [q] = core"
proof -
  have dl: "dropWhile (\<lambda>c. c = q) (l @ xs) = dropWhile (\<lambda>c. c = q) xs" for xs
    using assms(1) by (induction l) auto
  have dr: "dropWhile (\<lambda>c. c = q) (rev r @ xs) = dropWhile (\<lambda>c. c = q) xs" for xs
    using assms(2) by (induction r rule: rev_induct) auto
  have s: "str_strip xs [q] = rev (dropWhile (\<lambda>c. c = q) (rev (dropWhile (\<lambda>c. c = q) xs)))" for xs
    by (simp add: str_strip_def)
  show ?thesis
  proof (cases "core = []")
    case True
    have e: "dropWhile (\<lambda>c. c = q) r = []"
      using assms(2) by (induction r) auto
    show ?thesis unfolding s dl True by (simp add: e)
  next
    case False
    with assms(3) have h: "hd core \<noteq> q" and t: "last core \<noteq> q" by simp_all
    from False h have 1: "dropWhile (\<lambda>c. c = q) (core @ r) = core @ r"
      by (cases core) auto
    have 3: "dropWhile (\<lambda>c. c = q) (rev core @ xs) = rev core @ xs" for xs
      using False t by (cases core rule: rev_cases) auto
    have "dropWhile (\<lambda>c. c = q) (rev r @ rev core @ []) = rev core"
      unfolding dr 3 by simp
    then have "dropWhile (\<lambda>c. c = q) (rev (core @ r)) = rev core"
      by simp
    then show ?thesis unfolding s dl 1 by simp
  qed
qed

lemma parse_args_replace_empty_source:
  "parse_args [''--replace'', CHR ''='' # target] =
     Inr \<lparr>args_path = None, args_replace = Some [CHR ''='' # target]\<rparr>"
proof -
  have 1: "parse_optional ''--replace'' =
      Inr (Some (Option_tuple (Some replace_action) ''--replace'' None None))"
    by code_simp
  have 2: "parse_optional (CHR ''='' # target) = Inr None"
    by (simp add: parse_optional_def)
  show ?thesis
    by (simp add: parse_args_def 1 2 take_action_def)
qed

section \<open>Claims about the padding algorithm\<close>

text \<open>
  C1. \<open>add_padding\<close> returns the name unchanged when it has no ASCII digit. Otherwise,
  for the name written as prefix, body and suffix, where the prefix has no digit, the body
  is a non-empty run of digits and the suffix does not start with a digit (so the body is
  the first maximal run), it returns the prefix, then \<open>max (width - length body) 0\<close>
  zeros, then the body and the suffix. It never truncates: a body at least as long as the
  width leaves the nm unchanged. This holds for every integer width, negative ones
  included.
\<close>

theorem add_padding_spec:
  "(\<not> has_digit nm \<longrightarrow> add_padding nm width = nm) \<and>
   ((\<forall>c\<in>set pre. \<not> is_digit c) \<and> body \<noteq> [] \<and> (\<forall>c\<in>set body. is_digit c) \<and>
    (suf = [] \<or> \<not> is_digit (hd suf)) \<longrightarrow>
      add_padding (pre @ body @ suf) width =
        pre @ replicate (nat (max (width - int (length body)) 0)) CHR ''0'' @ body @ suf \<and>
      (width \<le> int (length body) \<longrightarrow>
        add_padding (pre @ body @ suf) width = pre @ body @ suf))"
proof (intro conjI impI)
  assume "\<not> has_digit nm"
  then have "DIGITS_match nm = None" by (simp add: DIGITS_match_None)
  then show "add_padding nm width = nm" by (simp add: add_padding_def)
next
  assume h: "(\<forall>c\<in>set pre. \<not> is_digit c) \<and> body \<noteq> [] \<and> (\<forall>c\<in>set body. is_digit c) \<and>
    (suf = [] \<or> \<not> is_digit (hd suf))"
  then have m: "DIGITS_match (pre @ body @ suf) = Some (length pre, length pre + length body)"
    by (intro DIGITS_match_decomp) auto
  show eq: "add_padding (pre @ body @ suf) width =
      pre @ replicate (nat (max (width - int (length body)) 0)) CHR ''0'' @ body @ suf"
    by (simp add: add_padding_def m Let_def max_def)
  assume "width \<le> int (length body)"
  with eq show "add_padding (pre @ body @ suf) width = pre @ body @ suf"
    by simp
qed

theorem add_padding_spec_witness:
  "add_padding ''abc.jpg'' 3 = ''abc.jpg'' \<and>
   add_padding ''cam2-0007.jpg'' 3 = ''cam002-0007.jpg'' \<and>
   add_padding ''img1234.jpg'' 3 = ''img1234.jpg''"
proof -
  have a: "add_padding ''abc.jpg'' 3 = ''abc.jpg''"
    using add_padding_spec [of "''abc.jpg''" 3 "[]" "[]" "[]"]
    by (simp add: has_digit_def is_digit_def)
  have b: "add_padding ''cam2-0007.jpg'' 3 = ''cam002-0007.jpg''"
    using add_padding_spec [of "[]" 3 "''cam''" "''2''" "''-0007.jpg''"]
    by (simp add: has_digit_def is_digit_def numeral_eq_Suc)
  have c: "add_padding ''img1234.jpg'' 3 = ''img1234.jpg''"
    using add_padding_spec [of "[]" 3 "''img''" "''1234''" "''.jpg''"]
    by (simp add: has_digit_def is_digit_def)
  from a b c show ?thesis by simp
qed

text \<open>
  C2. For every list of names, \<open>calculate_padding\<close> returns the maximum, over the names
  that contain a digit, of the length of the name's first maximal digit run, and 0 when
  there is no such name: the maximum is taken over those lengths together with 0. On a
  list none of whose names has a digit, and on the empty list, the result is 0; on
  \<open>["1", "23", "456"]\<close> it is 3 and on \<open>["a", "b"]\<close> it is 0.
\<close>

theorem calculate_padding_spec:
  "calculate_padding nms =
     Max (insert 0 ((\<lambda>nm. int (length (first_digit_run nm))) ` set (filter has_digit nms))) \<and>
   calculate_padding (filter (\<lambda>nm. \<not> has_digit nm) nms) = 0 \<and>
   calculate_padding [] = 0 \<and>
   calculate_padding [''1'', ''23'', ''456''] = 3 \<and>
   calculate_padding [''a'', ''b''] = 0"
proof -
  have g: "calculate_padding ns =
      Max (insert 0 ((\<lambda>nm. int (length (first_digit_run nm))) ` set (filter has_digit ns)))" for ns
    by (simp add: calculate_padding_def calculate_padding_loop_Max)
  have "filter has_digit (filter (\<lambda>nm. \<not> has_digit nm) nms) = []"
    by (induction nms) auto
  then have z: "calculate_padding (filter (\<lambda>nm. \<not> has_digit nm) nms) = 0"
    by (simp add: g)
  have e1: "calculate_padding [''1'', ''23'', ''456''] = 3"
    by (simp add: g has_digit_def first_digit_run_def is_digit_def)
  have e2: "calculate_padding [''a'', ''b''] = 0"
    by (simp add: g has_digit_def first_digit_run_def is_digit_def)
  from g [of nms] z g [of "[]"] e1 e2 show ?thesis by simp
qed

section \<open>Claims about the new file name\<close>

text \<open>
  C3. \<open>get_new_filename\<close> pads the full original file name, extension included (so a
  digit of the extension is padded when the stem has none), and then applies the
  replacement pairs in the order of the mapping, each one to the result of the one before:
  with no pair the result is the padded name, and a further pair at the end is applied to
  the result for the pairs before it. The whole is the left fold of \<open>str_replace\<close> over
  the pairs. With \<open>foo \<mapsto> baz\<close> and then \<open>baz \<mapsto> qux\<close>, \<open>foo_bar.jpg\<close> becomes
  \<open>qux_bar.jpg\<close>. The function is total: no input raises.
\<close>

theorem get_new_filename_spec:
  "get_new_filename self pad [] = add_padding (old_filename self) pad \<and>
   get_new_filename self pad (items @ [(source, target)]) =
     str_replace (get_new_filename self pad items) source target \<and>
   get_new_filename self pad items =
     foldl (\<lambda>nm (source, target). str_replace nm source target)
       (add_padding (old_filename self) pad) items \<and>
   get_new_filename (File_init p ''foo_bar.jpg'') pad [(''foo'', ''baz''), (''baz'', ''qux'')] =
     ''qux_bar.jpg'' \<and>
   get_new_filename (File_init p ''7.m4v'') 3 [] = ''007.m4v'' \<and>
   get_new_filename (File_init p ''a.mp4'') 3 [] = ''a.mp004''"
proof -
  have a: "get_new_filename self pad [] = add_padding (old_filename self) pad"
    by (simp add: get_new_filename_def)
  have b: "get_new_filename self pad (items @ [(source, target)]) =
      str_replace (get_new_filename self pad items) source target"
    by (simp add: get_new_filename_def get_new_filename_loop_snoc)
  have c: "get_new_filename self pad items =
      foldl (\<lambda>nm (source, target). str_replace nm source target)
        (add_padding (old_filename self) pad) items"
    by (simp add: get_new_filename_def get_new_filename_loop_foldl)
  have d: "get_new_filename (File_init p ''foo_bar.jpg'') pad
      [(''foo'', ''baz''), (''baz'', ''qux'')] = ''qux_bar.jpg''"
    by (simp add: get_new_filename_def File_init_def add_padding_def DIGITS_match_def is_digit_def)
  have e: "get_new_filename (File_init p ''7.m4v'') 3 [] = ''007.m4v''"
    by (simp add: get_new_filename_def File_init_def add_padding_def DIGITS_match_def
        is_digit_def numeral_eq_Suc)
  have f: "get_new_filename (File_init p ''a.mp4'') 3 [] = ''a.mp004''"
    by (simp add: get_new_filename_def File_init_def add_padding_def DIGITS_match_def
        is_digit_def numeral_eq_Suc)
  from a b c d e f show ?thesis by blast
qed

section \<open>Claims about the majority extension\<close>

text \<open>
  C5. For every folder with at least one file whose case-folded extension is non-empty,
  \<open>majority\<close> returns a value: one of the case-folded non-empty extensions, such that no
  extension occurs more often among them, and such that every extension occurring as
  often is first met no earlier in scan order.
\<close>

theorem majority_most_common:
  assumes "folded_extensions cf folder \<noteq> []"
  shows "\<exists>m. majority cf folder = Inr m \<and> m \<in> set (folded_extensions cf folder) \<and>
    (\<forall>e\<in>set (folded_extensions cf folder).
       count_list (folded_extensions cf folder) e \<le> count_list (folded_extensions cf folder) m \<and>
       (count_list (folded_extensions cf folder) e = count_list (folded_extensions cf folder) m \<longrightarrow>
          first_index (folded_extensions cf folder) m \<le> first_index (folded_extensions cf folder) e))"
proof -
  define xs where "xs = folded_extensions cf folder"
  from assms have "Counter xs \<noteq> []" by (simp add: Counter_eq_Nil xs_def)
  then obtain item items where c: "Counter xs = item # items" by (cases "Counter xs") auto
  define r where "r = max_key snd item items"
  have maj: "majority cf folder = Inr (fst r)"
    by (simp add: majority_folded_extensions most_common_1_def c r_def flip: xs_def)
  from max_key_split [of item items snd] obtain P Q where
    pq: "Counter xs = P @ r # Q" "\<forall>x\<in>set P. snd x < snd r" "\<forall>x\<in>set Q. snd x \<le> snd r"
    unfolding r_def c by blast
  have cnt: "snd kv = count_list xs (fst kv)" if "kv \<in> set (Counter xs)" for kv
  proof -
    from that have "map_of (Counter xs) (fst kv) = Some (snd kv)"
      using Counter_order [of xs] by simp
    then show ?thesis by (simp add: map_of_Counter split: if_splits)
  qed
  have rin: "r \<in> set (Counter xs)" using pq(1) by simp
  then have "fst r \<in> fst ` set (Counter xs)" by blast
  then have m_in: "fst r \<in> set xs" by (simp add: keys_Counter)
  have srt: "sorted_wrt (\<lambda>a b. first_index xs a < first_index xs b) (map fst P @ fst r # map fst Q)"
    using Counter_order [of xs] pq(1) by simp
  have "count_list xs e \<le> count_list xs (fst r) \<and>
      (count_list xs e = count_list xs (fst r) \<longrightarrow> first_index xs (fst r) \<le> first_index xs e)"
    if "e \<in> set xs" for e
  proof -
    from that have "e \<in> fst ` set (Counter xs)" by (simp add: keys_Counter)
    then obtain kv where kv: "kv \<in> set (Counter xs)" "fst kv = e" by auto
    from kv(1) pq(1) consider "kv \<in> set P" | "kv = r" | "kv \<in> set Q" by auto
    then show ?thesis
    proof cases
      case 1
      with pq(2) have "snd kv < snd r" by simp
      then show ?thesis using cnt [OF kv(1)] cnt [OF rin] kv(2) by simp
    next
      case 2
      then show ?thesis using kv(2) by simp
    next
      case 3
      with pq(3) have "snd kv \<le> snd r" by simp
      moreover from 3 srt kv(2) have "first_index xs (fst r) < first_index xs e"
        by (auto simp: sorted_wrt_append)
      ultimately show ?thesis using cnt [OF kv(1)] cnt [OF rin] kv(2) by simp
    qed
  qed
  with maj m_in show ?thesis unfolding xs_def by blast
qed

theorem majority_most_common_witness:
  "folded_extensions ascii_casefold
     \<lparr>folder_path = ''d'', files = map (File_init ''d'')
        [''a.jpg'', ''b.png'', ''notes'', ''c.PNG'', ''d.JPG'', ''e.txt'']\<rparr> =
     [''jpg'', ''png'', ''png'', ''jpg'', ''txt''] \<and>
   majority ascii_casefold
     \<lparr>folder_path = ''d'', files = map (File_init ''d'')
        [''a.jpg'', ''b.png'', ''notes'', ''c.PNG'', ''d.JPG'', ''e.txt'']\<rparr> = Inr ''jpg'' \<and>
   (\<exists>m. majority ascii_casefold
       \<lparr>folder_path = ''d'', files = map (File_init ''d'')
          [''a.jpg'', ''b.png'', ''notes'', ''c.PNG'', ''d.JPG'', ''e.txt'']\<rparr> = Inr m \<and>
     count_list [''jpg'', ''png'', ''png'', ''jpg'', ''txt''] ''png'' \<le>
       count_list [''jpg'', ''png'', ''png'', ''jpg'', ''txt''] m \<and>
     first_index [''jpg'', ''png'', ''png'', ''jpg'', ''txt''] m \<le>
       first_index [''jpg'', ''png'', ''png'', ''jpg'', ''txt''] ''png'')"
proof -
  let ?folder = "\<lparr>folder_path = ''d'', files = map (File_init ''d'')
        [''a.jpg'', ''b.png'', ''notes'', ''c.PNG'', ''d.JPG'', ''e.txt'']\<rparr>"
  let ?exts = "[''jpg'', ''png'', ''png'', ''jpg'', ''txt'']"
  have e: "folded_extensions ascii_casefold ?folder = ?exts"
    by code_simp
  have v: "majority ascii_casefold ?folder = Inr ''jpg''"
    by code_simp
  from e have ne: "folded_extensions ascii_casefold ?folder \<noteq> []" by simp
  from majority_most_common [OF ne] obtain m where
    m: "majority ascii_casefold ?folder = Inr m" and
    all: "\<forall>e\<in>set ?exts. count_list ?exts e \<le> count_list ?exts m \<and>
           (count_list ?exts e = count_list ?exts m \<longrightarrow> first_index ?exts m \<le> first_index ?exts e)"
    unfolding e by blast
  from m v have mj: "m = ''jpg''" by simp
  from all have "count_list ?exts ''png'' \<le> count_list ?exts m \<and>
      (count_list ?exts ''png'' = count_list ?exts m \<longrightarrow>
         first_index ?exts m \<le> first_index ?exts ''png'')"
    by simp
  then have "count_list ?exts ''png'' \<le> count_list ?exts m \<and>
      first_index ?exts m \<le> first_index ?exts ''png''"
    unfolding mj by (simp add: first_index_def)
  with e v m show ?thesis by blast
qed

text \<open>
  C6. \<open>majority\<close> raises \<open>IndexError\<close> exactly when no file of the folder has a non-empty
  case-folded extension (an empty folder included), and returns a value exactly when some
  file has one: there is no default.
\<close>

theorem majority_IndexError_iff:
  "(majority cf folder = Inl IndexError \<longleftrightarrow> (\<forall>file\<in>set (files folder). cf (ext file) = [])) \<and>
   ((\<exists>m. majority cf folder = Inr m) \<longleftrightarrow> (\<exists>file\<in>set (files folder). cf (ext file) \<noteq> []))"
proof -
  have e: "folded_extensions cf folder = [] \<longleftrightarrow> (\<forall>file\<in>set (files folder). cf (ext file) = [])"
    by (auto simp: folded_extensions_def filter_empty_conv)
  have a: "majority cf folder = Inl IndexError \<longleftrightarrow> (\<forall>file\<in>set (files folder). cf (ext file) = [])"
    by (simp add: majority_IndexError e)
  have "(\<exists>m. majority cf folder = Inr m) \<longleftrightarrow> majority cf folder \<noteq> Inl IndexError"
    by (auto simp: majority_folded_extensions split: list.splits)
  with a show ?thesis by blast
qed

theorem majority_IndexError_iff_witness:
  "majority ascii_casefold
     \<lparr>folder_path = ''d'', files = map (File_init ''d'') [''README'', ''Makefile'', ''.gitignore'']\<rparr> =
     Inl IndexError \<and>
   majority ascii_casefold \<lparr>folder_path = ''d'', files = []\<rparr> = Inl IndexError \<and>
   (\<exists>m. majority ascii_casefold
      \<lparr>folder_path = ''d'', files = map (File_init ''d'') [''README'', ''a.jpg'']\<rparr> = Inr m)"
proof -
  have x: "map (\<lambda>file. ascii_casefold (ext file))
      (map (File_init ''d'') [''README'', ''Makefile'', ''.gitignore'']) = [[], [], []]"
    by code_simp
  have y: "map (\<lambda>file. ascii_casefold (ext file))
      (map (File_init ''d'') [''README'', ''a.jpg'']) = [[], ''jpg'']"
    by code_simp
  have a: "majority ascii_casefold
     \<lparr>folder_path = ''d'', files = map (File_init ''d'') [''README'', ''Makefile'', ''.gitignore'']\<rparr> =
     Inl IndexError"
    using majority_IndexError_iff [of ascii_casefold
        "\<lparr>folder_path = ''d'', files = map (File_init ''d'') [''README'', ''Makefile'', ''.gitignore'']\<rparr>"]
      x by simp
  have b: "majority ascii_casefold \<lparr>folder_path = ''d'', files = []\<rparr> = Inl IndexError"
    using majority_IndexError_iff [of ascii_casefold "\<lparr>folder_path = ''d'', files = []\<rparr>"]
    by simp
  have c: "\<exists>m. majority ascii_casefold
      \<lparr>folder_path = ''d'', files = map (File_init ''d'') [''README'', ''a.jpg'']\<rparr> = Inr m"
    using majority_IndexError_iff [of ascii_casefold
        "\<lparr>folder_path = ''d'', files = map (File_init ''d'') [''README'', ''a.jpg'']\<rparr>"]
      y by simp
  from a b c show ?thesis by blast
qed

section \<open>Claims about renaming\<close>




text \<open>
  C8, as the code has it. \<open>rename_to_pattern\<close> compares the new name with the original
  name \<open>old_filename\<close>, which no method changes. If they are equal it does nothing to the
  file system or to the object and returns \<open>False\<close>. Otherwise it sets \<open>new_filename\<close> to
  the new name and asks the file system to rename the file from the original name to the
  new name in the file's directory; it returns \<open>True\<close> when that succeeds, and the error
  is raised when it fails. For a file that has not been renamed, whose current name is
  still the original one, this is a comparison with and a rename from the current name.
\<close>

theorem rename_to_pattern_spec:
  "(get_new_filename self width items = old_filename self \<longrightarrow>
      rename_to_pattern os_rename self width items fs = (Inr False, self, fs)) \<and>
   (get_new_filename self width items \<noteq> old_filename self \<longrightarrow>
      rename_to_pattern os_rename self width items fs =
        (case os_rename fs (path self, old_filename self)
                (path self, get_new_filename self width items) of
           Inl e \<Rightarrow> (Inl e, self\<lparr>new_filename := get_new_filename self width items\<rparr>, fs)
         | Inr fs' \<Rightarrow> (Inr True, self\<lparr>new_filename := get_new_filename self width items\<rparr>, fs')))"
  by (simp add: rename_to_pattern_def Let_def split: sum.splits)

theorem rename_to_pattern_spec_witness:
  "rename_to_pattern simple_rename (File_init ''d'' ''10.jpg'') 2 [] {(''d'', ''10.jpg'')} =
     (Inr False, File_init ''d'' ''10.jpg'', {(''d'', ''10.jpg'')}) \<and>
   rename_to_pattern simple_rename (File_init ''d'' ''1.jpg'') 2 [] {(''d'', ''1.jpg'')} =
     (Inr True,
      \<lparr>path = ''d'', filename = ''1.jpg'', old_filename = ''1.jpg'', new_filename = ''01.jpg''\<rparr>,
      {(''d'', ''01.jpg'')})"
proof -
  have n1: "get_new_filename (File_init ''d'' ''10.jpg'') 2 [] = ''10.jpg''"
    by code_simp
  have n2: "get_new_filename (File_init ''d'' ''1.jpg'') 2 [] = ''01.jpg''"
    by code_simp
  have o: "old_filename (File_init d n) = n" "path (File_init d n) = d" for d n
    by (simp_all add: File_init_def)
  have a: "rename_to_pattern simple_rename (File_init ''d'' ''10.jpg'') 2 [] {(''d'', ''10.jpg'')} =
     (Inr False, File_init ''d'' ''10.jpg'', {(''d'', ''10.jpg'')})"
    using rename_to_pattern_spec [of "File_init ''d'' ''10.jpg''" 2 "[]" simple_rename "{(''d'', ''10.jpg'')}"]
    by (simp add: n1 o)
  have b: "rename_to_pattern simple_rename (File_init ''d'' ''1.jpg'') 2 [] {(''d'', ''1.jpg'')} =
     (Inr True,
      \<lparr>path = ''d'', filename = ''1.jpg'', old_filename = ''1.jpg'', new_filename = ''01.jpg''\<rparr>,
      {(''d'', ''01.jpg'')})"
    using rename_to_pattern_spec [of "File_init ''d'' ''1.jpg''" 2 "[]" simple_rename "{(''d'', ''1.jpg'')}"]
    by (simp add: n2 o simple_rename_def) (simp add: File_init_def)
  from a b show ?thesis by simp
qed

text \<open>
  C8 as stated fails at a second call. After \<open>1.jpg\<close> has been renamed to \<open>01.jpg\<close> the
  new name equals the current name, so the claim has the call do nothing and return
  \<open>False\<close>; the code compares with the original name, finds a difference and renames from
  \<open>1.jpg\<close> again, which no longer exists.
\<close>

theorem rename_to_pattern_second_call_counterexample:
  "rename_to_pattern simple_rename (File_init ''d'' ''1.jpg'') 2 [] {(''d'', ''1.jpg'')} =
     (Inr True,
      \<lparr>path = ''d'', filename = ''1.jpg'', old_filename = ''1.jpg'', new_filename = ''01.jpg''\<rparr>,
      {(''d'', ''01.jpg'')}) \<and>
   get_new_filename
     \<lparr>path = ''d'', filename = ''1.jpg'', old_filename = ''1.jpg'', new_filename = ''01.jpg''\<rparr> 2 [] =
     current_name
       \<lparr>path = ''d'', filename = ''1.jpg'', old_filename = ''1.jpg'', new_filename = ''01.jpg''\<rparr> \<and>
   rename_to_pattern simple_rename
     \<lparr>path = ''d'', filename = ''1.jpg'', old_filename = ''1.jpg'', new_filename = ''01.jpg''\<rparr> 2 []
     {(''d'', ''01.jpg'')} =
     (Inl FileNotFoundError,
      \<lparr>path = ''d'', filename = ''1.jpg'', old_filename = ''1.jpg'', new_filename = ''01.jpg''\<rparr>,
      {(''d'', ''01.jpg'')})"
proof -
  have n: "get_new_filename
     \<lparr>path = ''d'', filename = ''1.jpg'', old_filename = ''1.jpg'', new_filename = nf\<rparr> 2 [] = ''01.jpg''" for nf
    by (simp add: get_new_filename_def add_padding_def DIGITS_match_def is_digit_def)
  show ?thesis
    by (simp add: rename_to_pattern_def n File_init_def simple_rename_def current_name_def Let_def)
qed

section \<open>Claims about configuration parsing\<close>

text \<open>
  C7, as the code has it. \<open>get_config\<close> ends the process with status 1 exactly when
  \<open>argparse\<close> accepts the argument list and either the resolved path does not exist or
  some replace value is malformed, and it has then printed one diagnostic. It returns a
  configuration, having printed nothing, exactly when \<open>argparse\<close> accepts the list, the
  path exists and no replace value is malformed. An argument list that \<open>argparse\<close> does
  not accept ends the process there, with status 0 (help) or 2 (usage error) and no
  diagnostic of \<open>get_config\<close>. A value is malformed, that is holds no or several \<open>=\<close>,
  exactly when splitting it at \<open>=\<close> does not give two pieces.
\<close>

theorem get_config_exit:
  "(snd (get_config os args) = Inl (SystemExit 1) \<longleftrightarrow>
      (\<exists>namespace. parse_args args = Inr namespace \<and>
         (\<not> path_exists os (resolved_path os namespace) \<or>
          list_ex malformed (replace_values namespace)))) \<and>
   (snd (get_config os args) = Inl (SystemExit 1) \<longrightarrow> length (fst (get_config os args)) = 1) \<and>
   ((\<exists>config. get_config os args = ([], Inr config)) \<longleftrightarrow>
      (\<exists>namespace. parse_args args = Inr namespace \<and>
         path_exists os (resolved_path os namespace) \<and>
         \<not> list_ex malformed (replace_values namespace))) \<and>
   (\<forall>e. parse_args args = Inl e \<longrightarrow>
      get_config os args = ([], Inl e) \<and> (e = SystemExit 0 \<or> e = SystemExit 2)) \<and>
   (malformed each \<longleftrightarrow> length (str_split each CHR ''='') \<noteq> 2)"
proof (cases "parse_args args")
  case (Inl e)
  then have g: "get_config os args = ([], Inl e)" by (simp add: get_config_def)
  from Inl have e: "e = SystemExit 0 \<or> e = SystemExit 2" by (rule parse_args_exit)
  from g e Inl show ?thesis by (auto simp: malformed_iff)
next
  case (Inr namespace)
  show ?thesis
  proof (cases "path_exists os (resolved_path os namespace)")
    case False
    then have "get_config os args =
        ([Directory_does_not_exist (resolved_path os namespace)], Inl (SystemExit 1))"
      using Inr by (simp add: get_config_def resolved_path_def)
    with Inr False show ?thesis by (simp add: malformed_iff)
  next
    case True
    show ?thesis
    proof (cases "list_ex malformed (replace_values namespace)")
      case bad: True
      then obtain vals where v: "args_replace namespace = Some vals"
        by (auto simp: replace_values_def split: option.splits)
      with bad obtain each where "get_config_loop [] vals = Inl each"
        using get_config_loop_Inl [of "[]" vals] by (auto simp: replace_values_def)
      then have "get_config os args = ([Replace_argument_expects each], Inl (SystemExit 1))"
        using Inr True v by (simp add: get_config_def resolved_path_def)
      with Inr True bad show ?thesis by (simp add: malformed_iff)
    next
      case good: False
      have "\<exists>d. (case args_replace namespace of None \<Rightarrow> Inr [] | Some vals \<Rightarrow> get_config_loop [] vals) = Inr d"
      proof (cases "args_replace namespace")
        case None
        then show ?thesis by simp
      next
        case (Some vals)
        with good show ?thesis
          using get_config_loop_Inr [of "[]" vals] by (simp add: replace_values_def)
      qed
      then obtain d where "(case args_replace namespace of None \<Rightarrow> Inr [] | Some vals \<Rightarrow> get_config_loop [] vals) = Inr d"
        by blast
      then have "get_config os args = ([], Inr \<lparr>cwd = resolved_path os namespace, replace = d\<rparr>)"
        using Inr True by (simp add: get_config_def resolved_path_def)
      with Inr True good show ?thesis by (simp add: malformed_iff)
    qed
  qed
qed

theorem get_config_exit_witness:
  "snd (get_config example_os [''--replace'', ''a=b=c'']) = Inl (SystemExit 1) \<and>
   snd (get_config example_os [''--replace'', ''ab'']) = Inl (SystemExit 1) \<and>
   snd (get_config example_os [''--path'', ''nowhere'']) = Inl (SystemExit 1) \<and>
   (\<exists>config. get_config example_os [''--path'', ''d'', ''--replace'', ''a=b''] = ([], Inr config)) \<and>
   get_config example_os [''--help''] = ([], Inl (SystemExit 0))"
proof -
  have p1: "parse_args [''--replace'', ''a=b=c''] =
      Inr \<lparr>args_path = None, args_replace = Some [''a=b=c'']\<rparr>" by code_simp
  have p2: "parse_args [''--replace'', ''ab''] =
      Inr \<lparr>args_path = None, args_replace = Some [''ab'']\<rparr>" by code_simp
  have p3: "parse_args [''--path'', ''nowhere''] =
      Inr \<lparr>args_path = Some ''nowhere'', args_replace = None\<rparr>" by code_simp
  have p4: "parse_args [''--path'', ''d'', ''--replace'', ''a=b''] =
      Inr \<lparr>args_path = Some ''d'', args_replace = Some [''a=b'']\<rparr>" by code_simp
  have p5: "parse_args [''--help''] = Inl (SystemExit 0)" by code_simp
  have a: "snd (get_config example_os [''--replace'', ''a=b=c'']) = Inl (SystemExit 1)"
    using get_config_exit [of example_os "[''--replace'', ''a=b=c'']" "[]"]
    by (simp add: p1 replace_values_def malformed_def)
  have b: "snd (get_config example_os [''--replace'', ''ab'']) = Inl (SystemExit 1)"
    using get_config_exit [of example_os "[''--replace'', ''ab'']" "[]"]
    by (simp add: p2 replace_values_def malformed_def)
  have c: "snd (get_config example_os [''--path'', ''nowhere'']) = Inl (SystemExit 1)"
    using get_config_exit [of example_os "[''--path'', ''nowhere'']" "[]"]
    by (simp add: p3 resolved_path_def example_os_def)
  have d: "\<exists>config. get_config example_os [''--path'', ''d'', ''--replace'', ''a=b''] = ([], Inr config)"
    using get_config_exit [of example_os "[''--path'', ''d'', ''--replace'', ''a=b'']" "[]"]
    by (simp add: p4 resolved_path_def replace_values_def malformed_def example_os_def)
  have e: "get_config example_os [''--help''] = ([], Inl (SystemExit 0))"
    using get_config_exit [of example_os "[''--help'']" "[]"] by (simp add: p5)
  from a b c d e show ?thesis by blast
qed

text \<open>
  C7 as stated fails for an argument list that \<open>argparse\<close> rejects: with the unknown flag
  \<open>--bogus\<close> the path exists and there is no replace value, so the claim has a
  configuration returned, and the process ends with status 2.
\<close>

theorem get_config_unrecognized_counterexample:
  "path_exists example_os (getcwd example_os) \<and>
   get_config example_os [''--bogus''] = ([], Inl (SystemExit 2))"
  by code_simp

text \<open>
  C9, as the code has it. For a replace value \<open>source=target\<close> with one \<open>=\<close>, the entry
  stored is from the source to the target, each with its quotes stripped: \<open>strip\<close> removes
  all the single quotes at both ends, then all the double quotes at both ends. A strip
  is not limited to one layer: whatever run of the quote character stands at either end
  of a part that itself neither starts nor ends with it is removed whole.
\<close>

theorem get_config_loop_strip:
  "(CHR ''='' \<notin> set source \<and> CHR ''='' \<notin> set target \<longrightarrow>
      get_config_loop d [source @ ''='' @ target] =
        Inr (dict_setitem d (strip_quotes source) (strip_quotes target))) \<and>
   (set l \<subseteq> {q} \<and> set r \<subseteq> {q} \<and> (core = [] \<or> (hd core \<noteq> q \<and> last core \<noteq> q)) \<longrightarrow>
      str_strip (l @ core @ r) [q] = core)"
proof (intro conjI impI)
  assume "CHR ''='' \<notin> set source \<and> CHR ''='' \<notin> set target"
  then have "str_split (source @ ''='' @ target) CHR ''='' = [source, target]"
    by (simp add: str_split_pair)
  then show "get_config_loop d [source @ ''='' @ target] =
      Inr (dict_setitem d (strip_quotes source) (strip_quotes target))"
    by (simp add: strip_quotes_def Let_def)
next
  assume "set l \<subseteq> {q} \<and> set r \<subseteq> {q} \<and> (core = [] \<or> (hd core \<noteq> q \<and> last core \<noteq> q))"
  then show "str_strip (l @ core @ r) [q] = core"
    by (intro str_strip_layers) auto
qed

theorem get_config_loop_strip_witness:
  "get_config_loop []
     [[CHR 0x27, CHR 0x27, CHR ''a'', CHR 0x27, CHR 0x27] @ ''='' @ [CHR 0x22, CHR ''b'', CHR 0x22]] =
     Inr [(''a'', ''b'')] \<and>
   str_strip ([CHR 0x27, CHR 0x27] @ ''a'' @ [CHR 0x27, CHR 0x27]) [CHR 0x27] = ''a''"
proof -
  have s: "strip_quotes [CHR 0x27, CHR 0x27, CHR ''a'', CHR 0x27, CHR 0x27] = ''a''"
    "strip_quotes [CHR 0x22, CHR ''b'', CHR 0x22] = ''b''"
    by code_simp+
  have a: "get_config_loop []
     [[CHR 0x27, CHR 0x27, CHR ''a'', CHR 0x27, CHR 0x27] @ ''='' @ [CHR 0x22, CHR ''b'', CHR 0x22]] =
     Inr [(''a'', ''b'')]"
    using get_config_loop_strip [of "[CHR 0x27, CHR 0x27, CHR ''a'', CHR 0x27, CHR 0x27]"
        "[CHR 0x22, CHR ''b'', CHR 0x22]" "[]" "[]" "CHR ''x''" "[]" "[]"]
    by (simp add: s)
  have b: "str_strip ([CHR 0x27, CHR 0x27] @ ''a'' @ [CHR 0x27, CHR 0x27]) [CHR 0x27] = ''a''"
    using get_config_loop_strip [of "[]" "[]" "[]" "[CHR 0x27, CHR 0x27]" "CHR 0x27"
        "[CHR 0x27, CHR 0x27]" "''a''"]
    by simp
  from a b show ?thesis by blast
qed

text \<open>
  C9 as stated fails for a part with two layers of quotes: the source written as two
  single quotes, \<open>a\<close>, two single quotes is stored as \<open>a\<close>, with no quote left.
\<close>

theorem get_config_quotes_counterexample:
  "get_config example_os
     [''--replace'', [CHR 0x27, CHR 0x27, CHR ''a'', CHR 0x27, CHR 0x27, CHR ''='', CHR ''b'']] =
     ([], Inr \<lparr>cwd = ''d'', replace = [(''a'', ''b'')]\<rparr>)"
  by code_simp

text \<open>
  C10. A replace value with an empty source, \<open>=target\<close>, is accepted: the configuration
  maps the empty string to the target (its quotes stripped). \<open>get_new_filename\<close> with
  that entry puts the target before every character of the padded name and once at its
  end.
\<close>

theorem empty_source_spec:
  "(CHR ''='' \<notin> set target \<and> path_exists os (getcwd os) \<longrightarrow>
      get_config os [''--replace'', CHR ''='' # target] =
        ([], Inr \<lparr>cwd = getcwd os, replace = [([], strip_quotes target)]\<rparr>)) \<and>
   get_new_filename self width [([], target)] =
     concat (map (\<lambda>c. target @ [c]) (add_padding (old_filename self) width)) @ target"
proof (intro conjI impI)
  assume h: "CHR ''='' \<notin> set target \<and> path_exists os (getcwd os)"
  then have "str_split (CHR ''='' # target) CHR ''='' = [[], target]"
    using str_split_pair [of "CHR ''=''" "[]" target] by simp
  then have "get_config_loop [] [CHR ''='' # target] = Inr [([], strip_quotes target)]"
    by (simp add: strip_quotes_def Let_def str_strip_def)
  with h show "get_config os [''--replace'', CHR ''='' # target] =
      ([], Inr \<lparr>cwd = getcwd os, replace = [([], strip_quotes target)]\<rparr>)"
    by (simp add: get_config_def parse_args_replace_empty_source)
next
  show "get_new_filename self width [([], target)] =
      concat (map (\<lambda>c. target @ [c]) (add_padding (old_filename self) width)) @ target"
    by (simp add: get_new_filename_def str_replace_empty)
qed

theorem empty_source_spec_witness:
  "get_config example_os [''--replace'', ''=x''] =
     ([], Inr \<lparr>cwd = ''d'', replace = [([], ''x'')]\<rparr>) \<and>
   get_new_filename (File_init ''d'' ''1.jpg'') 2 [([], ''x'')] = ''x0x1x.xjxpxgx''"
proof -
  have s: "strip_quotes ''x'' = ''x''" by code_simp
  have a: "get_config example_os [''--replace'', ''=x''] =
     ([], Inr \<lparr>cwd = ''d'', replace = [([], ''x'')]\<rparr>)"
    using empty_source_spec [of "''x''" example_os "File_init ''d'' ''1.jpg''" 2]
    by (simp add: s example_os_def)
  have p: "add_padding (old_filename (File_init ''d'' ''1.jpg'')) 2 = ''01.jpg''" by code_simp
  have b: "get_new_filename (File_init ''d'' ''1.jpg'') 2 [([], ''x'')] = ''x0x1x.xjxpxgx''"
    using empty_source_spec [of "''x''" example_os "File_init ''d'' ''1.jpg''" 2]
    by (simp add: p)
  from a b show ?thesis by blast
qed

end
